theory Spec2Isabelle
  imports Main "HOL-Library.Word" "HOL-Library.Sublist"
begin

section \<open>JavaScript strings\<close>

text \<open>
  A JavaScript string is a sequence of 16-bit code units. Literals are written
  \<open>js ''...''\<close>; the characters the parser looks for are named below.
\<close>

type_synonym codeunit = "16 word"
type_synonym jsstring = "codeunit list"

definition js :: "string \<Rightarrow> jsstring" where
  "js s = map of_char s"

abbreviation (input) AT :: codeunit where "AT \<equiv> 0x40"
abbreviation (input) BANG :: codeunit where "BANG \<equiv> 0x21"
abbreviation (input) HYPHEN :: codeunit where "HYPHEN \<equiv> 0x2D"

text \<open>The regular-expression class \<open>\d\<close> (no unicode flag): \<open>0\<close> to \<open>9\<close>.\<close>

definition digit :: "codeunit \<Rightarrow> bool" where
  "digit c = (0x30 \<le> c \<and> c \<le> 0x39)"

text \<open>The classes \<open>[01]\<close> and \<open>[0-3]\<close>.\<close>

definition digit01 :: "codeunit \<Rightarrow> bool" where
  "digit01 c = (c = 0x30 \<or> c = 0x31)"

definition digit03 :: "codeunit \<Rightarrow> bool" where
  "digit03 c = (0x30 \<le> c \<and> c \<le> 0x33)"

text \<open>
  \<open>String.prototype.trim\<close> strips WhiteSpace and LineTerminator code points
  from both ends: TAB, LF, VT, FF, CR, SP, NBSP, U+1680, U+2000 to U+200A, U+2028,
  U+2029, U+202F, U+205F, U+3000 and U+FEFF.
\<close>

definition whitespace :: "codeunit \<Rightarrow> bool" where
  "whitespace c =
     ((0x09 \<le> c \<and> c \<le> 0x0D) \<or> c = 0x20 \<or> c = 0xA0 \<or> c = 0x1680 \<or>
      (0x2000 \<le> c \<and> c \<le> 0x200A) \<or> c = 0x2028 \<or> c = 0x2029 \<or> c = 0x202F \<or>
      c = 0x205F \<or> c = 0x3000 \<or> c = 0xFEFF)"

definition trim :: "jsstring \<Rightarrow> jsstring" where
  "trim s = rev (dropWhile whitespace (rev (dropWhile whitespace s)))"

text \<open>
  \<open>s.replace(pat, "")\<close> with a string pattern: the first occurrence of \<open>pat\<close>
  in \<open>s\<close> is deleted, and \<open>s\<close> is returned as it is when there is none.
\<close>

fun replaceFirst :: "jsstring \<Rightarrow> jsstring \<Rightarrow> jsstring" where
  "replaceFirst [] pat = []"
| "replaceFirst (c # cs) pat =
     (if prefix pat (c # cs) then drop (length pat) (c # cs) else c # replaceFirst cs pat)"

section \<open>The quick-add parser\<close>

text \<open>
  The pattern \<open>@((?:19|20)\d\d-[01]\d-[0-3]\d)\<close> anchored at the head of a
  string. It always consumes eleven code units.
\<close>

fun dueAt :: "jsstring \<Rightarrow> bool" where
  "dueAt (a # y1 # y2 # y3 # y4 # h1 # m1 # m2 # h2 # d1 # d2 # rest) =
     (a = AT \<and> ((y1 = 0x31 \<and> y2 = 0x39) \<or> (y1 = 0x32 \<and> y2 = 0x30)) \<and>
      digit y3 \<and> digit y4 \<and> h1 = HYPHEN \<and> digit01 m1 \<and> digit m2 \<and>
      h2 = HYPHEN \<and> digit03 d1 \<and> digit d2)"
| "dueAt _ = False"

text \<open>
  \<open>input.match(/@(...)/)\<close>: the leftmost position where the pattern matches.
  The result is the pair of the whole match (index 0) and the captured group (index 1).
\<close>

fun matchDue :: "jsstring \<Rightarrow> (jsstring \<times> jsstring) option" where
  "matchDue [] = None"
| "matchDue (c # cs) =
     (if dueAt (c # cs) then Some (take 11 (c # cs), take 10 cs) else matchDue cs)"

text \<open>\<open>input.match(/!+/)\<close>: the leftmost \<open>!\<close>, extended greedily.\<close>

fun matchBangs :: "jsstring \<Rightarrow> jsstring option" where
  "matchBangs [] = None"
| "matchBangs (c # cs) =
     (if c = BANG then Some (takeWhile (\<lambda>x. x = BANG) (c # cs)) else matchBangs cs)"

record parsed =
  title :: jsstring
  due :: "jsstring option"
  priority :: "jsstring option"

text \<open>
  The three \<open>if (count ...)\<close> statements of the parser, in their order. The
  count of a match of \<open>!+\<close> is never zero, and then no statement assigns.
\<close>

definition priorityOfCount :: "nat \<Rightarrow> jsstring option" where
  "priorityOfCount count =
     (let priority = None;
          priority = (if count = 1 then Some (js ''high'') else priority);
          priority = (if count = 2 then Some (js ''medium'') else priority);
          priority = (if count \<ge> 3 then Some (js ''low'') else priority)
      in priority)"

text \<open>\<open>parseInput\<close> of \<open>board.js\<close>.\<close>

definition parseInput :: "jsstring \<Rightarrow> parsed" where
  "parseInput input =
     (let title = input;
          (due, title) =
            (case matchDue input of
               Some (m0, m1) \<Rightarrow> (Some m1, replaceFirst title m0)
             | None \<Rightarrow> (None, title));
          (priority, title) =
            (case matchBangs input of
               Some p0 \<Rightarrow> (priorityOfCount (length p0), replaceFirst title p0)
             | None \<Rightarrow> (None, title))
      in \<lparr>title = trim title, due = due, priority = priority\<rparr>)"

text \<open>\<open>parseInput\<close> of the application script (the second source file that has it).\<close>

definition parseInput_app :: "jsstring \<Rightarrow> parsed" where
  "parseInput_app input =
     (let title = input;
          (due, title) =
            (case matchDue input of
               Some (dueMatch0, dueMatch1) \<Rightarrow> (Some dueMatch1, replaceFirst title dueMatch0)
             | None \<Rightarrow> (None, title));
          (priority, title) =
            (case matchBangs input of
               Some priorityMatch0 \<Rightarrow>
                 (priorityOfCount (length priorityMatch0), replaceFirst title priorityMatch0)
             | None \<Rightarrow> (None, title))
      in \<lparr>title = trim title, due = due, priority = priority\<rparr>)"

text \<open>
  The parser as the specification words it: the priority run is searched in the title
  that remains after the due-date token has been removed. It serves for comparison only.
\<close>

definition parseInput_dueFirst :: "jsstring \<Rightarrow> parsed" where
  "parseInput_dueFirst input =
     (let title = input;
          (due, title) =
            (case matchDue input of
               Some (m0, m1) \<Rightarrow> (Some m1, replaceFirst title m0)
             | None \<Rightarrow> (None, title));
          (priority, title) =
            (case matchBangs title of
               Some p0 \<Rightarrow> (priorityOfCount (length p0), replaceFirst title p0)
             | None \<Rightarrow> (None, title))
      in \<lparr>title = trim title, due = due, priority = priority\<rparr>)"

subsection \<open>Vocabulary for stating what the parser does\<close>

text \<open>
  A date as the pattern captures it: ten code units \<open>YYYY-MM-DD\<close>, the year starting
  with \<open>19\<close> or \<open>20\<close>, the month a digit \<open>0\<close> or \<open>1\<close> followed by any digit, the
  day a digit \<open>0\<close> to \<open>3\<close> followed by any digit. Nothing else is checked, so
  \<open>2024-02-30\<close>, month \<open>00\<close> and month \<open>19\<close> all have this shape.
\<close>

definition dueShape :: "jsstring \<Rightarrow> bool" where
  "dueShape d =
     (length d = 10 \<and> (take 2 d = js ''19'' \<or> take 2 d = js ''20'') \<and>
      digit (d ! 2) \<and> digit (d ! 3) \<and> d ! 4 = HYPHEN \<and>
      digit01 (d ! 5) \<and> digit (d ! 6) \<and> d ! 7 = HYPHEN \<and>
      digit03 (d ! 8) \<and> digit (d ! 9))"

text \<open>
  \<open>firstDueAt input a d b\<close>: the input is \<open>a\<close>, then \<open>@\<close> and the date \<open>d\<close>, then
  \<open>b\<close>, and no \<open>@\<close> followed by a date starts further left.
\<close>

definition firstDueAt :: "jsstring \<Rightarrow> jsstring \<Rightarrow> jsstring \<Rightarrow> jsstring \<Rightarrow> bool" where
  "firstDueAt input a d b =
     (input = a @ AT # d @ b \<and> dueShape d \<and>
      (\<forall>a' d' b'. input = a' @ AT # d' @ b' \<and> dueShape d' \<longrightarrow> length a \<le> length a'))"

text \<open>The same decomposition, computed from left to right.\<close>

fun firstDueToken :: "jsstring \<Rightarrow> (jsstring \<times> jsstring \<times> jsstring) option" where
  "firstDueToken [] = None"
| "firstDueToken (c # cs) =
     (if dueAt (c # cs) then Some ([], take 11 (c # cs), drop 11 (c # cs))
      else map_option (\<lambda>(a, t, b). (c # a, t, b)) (firstDueToken cs))"

text \<open>The first \<open>replace\<close> of the parser, on its own.\<close>

definition dueRemoved :: "jsstring \<Rightarrow> jsstring" where
  "dueRemoved s = (case matchDue s of None \<Rightarrow> s | Some (m0, m1) \<Rightarrow> replaceFirst s m0)"

text \<open>
  The second \<open>replace\<close> of the parser, on its own: the run found in \<open>input\<close> is
  deleted from the title \<open>t\<close>.
\<close>

definition bangsRemoved :: "jsstring \<Rightarrow> jsstring \<Rightarrow> jsstring" where
  "bangsRemoved input t = (case matchBangs input of None \<Rightarrow> t | Some p0 \<Rightarrow> replaceFirst t p0)"

section \<open>Tasks and their persisted form\<close>

text \<open>
  The argument of \<open>addTask\<close> carries the parsed fields, a status and an owner; a task
  adds the id and the creation time. A property that is \<open>undefined\<close> or missing is \<open>None\<close>.
\<close>

record taskData = parsed +
  status :: "jsstring option"
  owner :: "jsstring option"

record task = taskData +
  task_id :: jsstring
  createdAt :: int

text \<open>
  JSON values. Numbers are the integers (the only numbers the board writes are clock
  readings in milliseconds).
\<close>

datatype json =
    JNull
  | JBool bool
  | JNum int
  | JStr jsstring
  | JArr "json list"
  | JObj "(jsstring \<times> json) list"

text \<open>
  The string held under the key \<open>taskRoverTasks\<close> is represented by what
  \<open>JSON.parse\<close> makes of it: the empty string, a string that \<open>JSON.parse\<close> rejects
  with a SyntaxError, or a string that denotes a JSON value. \<open>JSON.stringify\<close> writes
  the string that denotes the value it is given, so the text itself is not modelled.
  A missing key (\<open>getItem\<close> returns \<open>null\<close>) is \<open>None\<close>.
\<close>

datatype item = EmptyString | Malformed | Document json

datatype exn = SyntaxError

fun JSON_parse :: "item \<Rightarrow> exn + json" where
  "JSON_parse EmptyString = Inl SyntaxError"
| "JSON_parse Malformed = Inl SyntaxError"
| "JSON_parse (Document v) = Inr v"

text \<open>
  \<open>loadTasks\<close>: \<open>stored ? JSON.parse(stored) : []\<close> inside \<open>try\<close>, with \<open>[]\<close>
  in the \<open>catch\<close>. The result is the value assigned to \<open>tasks\<close>. The statistics
  page loads its tasks with the same statements.
\<close>

definition loadTasks :: "item option \<Rightarrow> json" where
  "loadTasks stored =
     (case stored of
        None \<Rightarrow> JArr []
      | Some str \<Rightarrow>
          if str = EmptyString then JArr []
          else (case JSON_parse str of Inl _ \<Rightarrow> JArr [] | Inr v \<Rightarrow> v))"

text \<open>
  \<open>JSON.stringify\<close> of a task: its properties in the order \<open>addTask\<close> writes them,
  the ones that are \<open>undefined\<close> left out.
\<close>

definition optional :: "string \<Rightarrow> jsstring option \<Rightarrow> (jsstring \<times> json) list" where
  "optional k v = (case v of None \<Rightarrow> [] | Some x \<Rightarrow> [(js k, JStr x)])"

definition stringifyTask :: "task \<Rightarrow> json" where
  "stringifyTask t =
     JObj ([(js ''id'', JStr (task_id t)), (js ''title'', JStr (title t))] @
           optional ''due'' (due t) @ optional ''priority'' (priority t) @
           optional ''status'' (status t) @ optional ''owner'' (owner t) @
           [(js ''createdAt'', JNum (createdAt t))])"

definition stringifyTasks :: "task list \<Rightarrow> json" where
  "stringifyTasks ts = JArr (map stringifyTask ts)"

text \<open>
  \<open>persistTasks\<close>: \<open>setItem\<close> inside \<open>try\<close> with an empty \<open>catch\<close>. When
  \<open>setItem\<close> throws (\<open>fails\<close>) the stored string stays what it was.
\<close>

definition persist :: "bool \<Rightarrow> task list \<Rightarrow> item option \<Rightarrow> item option" where
  "persist fails ts stored = (if fails then stored else Some (Document (stringifyTasks ts)))"

text \<open>
  Reading a parsed value back as tasks: every element is an object, \<open>id\<close> and
  \<open>title\<close> are strings, \<open>createdAt\<close> is a number, and each of \<open>due\<close>,
  \<open>priority\<close>, \<open>status\<close> and \<open>owner\<close> is a string or missing. Any other value
  is not a task array.
\<close>

definition stringProp :: "(jsstring \<times> json) list \<Rightarrow> string \<Rightarrow> jsstring option" where
  "stringProp ps k = (case map_of ps (js k) of Some (JStr x) \<Rightarrow> Some x | _ \<Rightarrow> None)"

definition stringOrMissing :: "(jsstring \<times> json) list \<Rightarrow> string \<Rightarrow> bool" where
  "stringOrMissing ps k = (case map_of ps (js k) of None \<Rightarrow> True | Some (JStr x) \<Rightarrow> True | _ \<Rightarrow> False)"

fun decodeTask :: "json \<Rightarrow> task option" where
  "decodeTask (JObj ps) =
     (case (map_of ps (js ''id''), map_of ps (js ''title''), map_of ps (js ''createdAt'')) of
        (Some (JStr i), Some (JStr t), Some (JNum c)) \<Rightarrow>
          if stringOrMissing ps ''due'' \<and> stringOrMissing ps ''priority'' \<and>
             stringOrMissing ps ''status'' \<and> stringOrMissing ps ''owner''
          then Some \<lparr>title = t, due = stringProp ps ''due'', priority = stringProp ps ''priority'',
                     status = stringProp ps ''status'', owner = stringProp ps ''owner'',
                     task_id = i, createdAt = c\<rparr>
          else None
      | _ \<Rightarrow> None)"
| "decodeTask _ = None"

fun decodeAll :: "json list \<Rightarrow> task list option" where
  "decodeAll [] = Some []"
| "decodeAll (v # vs) =
     (case decodeTask v of
        None \<Rightarrow> None
      | Some t \<Rightarrow> (case decodeAll vs of None \<Rightarrow> None | Some ts \<Rightarrow> Some (t # ts)))"

fun decodeTasks :: "json \<Rightarrow> task list option" where
  "decodeTasks (JArr vs) = decodeAll vs"
| "decodeTasks _ = None"

section \<open>The board's store\<close>

text \<open>
  Tasks are objects: the array \<open>tasks\<close> holds references, and the undo closures keep
  the reference of the task they captured. \<open>heap\<close> maps a reference to the object,
  \<open>nextRef\<close> is the next unused reference.
\<close>

type_synonym ref = nat

text \<open>
  The two closures handed to \<open>showToast\<close>: the one of \<open>moveTask\<close> captures the task,
  the one of \<open>deleteCurrentTask\<close> captures the index and the removed task.
\<close>

datatype undoFn = UndoMove ref | UndoDelete nat ref

text \<open>
  \<open>toast\<close> is the Undo button of the toast on display, \<open>None\<close> once the toast is
  hidden. \<open>stored\<close> is the string under \<open>taskRoverTasks\<close>; \<open>storageFails\<close>
  tells whether \<open>setItem\<close> throws.
\<close>

record store =
  heap :: "ref \<Rightarrow> task"
  nextRef :: ref
  tasks :: "ref list"
  currentEditId :: "jsstring option"
  toast :: "undoFn option"
  stored :: "item option"
  storageFails :: bool

text \<open>The tasks of the collection, in the order of the array.\<close>

definition collection :: "store \<Rightarrow> task list" where
  "collection s = map (heap s) (tasks s)"

definition ids :: "store \<Rightarrow> jsstring list" where
  "ids s = map task_id (collection s)"

definition persistTasks :: "store \<Rightarrow> store" where
  "persistTasks s = s\<lparr>stored := persist (storageFails s) (collection s) (stored s)\<rparr>"

text \<open>
  \<open>Number.prototype.toString\<close> on an integer clock reading: its decimal digits, with a
  minus sign below zero.
\<close>

fun digitsOf :: "nat \<Rightarrow> jsstring" where
  "digitsOf n =
     (if n < 10 then [0x30 + of_nat n] else digitsOf (n div 10) @ [0x30 + of_nat (n mod 10)])"

declare digitsOf.simps [simp del]

definition numberToString :: "int \<Rightarrow> jsstring" where
  "numberToString i = (if i < 0 then HYPHEN # digitsOf (nat (- i)) else digitsOf (nat i))"

text \<open>
  \<open>addTask\<close>. \<open>Date.now()\<close> is read twice, for the id (\<open>now\<close>) and for
  \<open>createdAt\<close> (\<open>now'\<close>). \<open>data.owner || ""\<close> turns a missing owner into the empty string.
\<close>

definition addTask :: "int \<Rightarrow> int \<Rightarrow> taskData \<Rightarrow> store \<Rightarrow> store" where
  "addTask now now' data s =
     (let newTask =
            \<lparr>title = title data, due = due data, priority = priority data,
             status = status data,
             owner = (case owner data of None \<Rightarrow> Some [] | Some x \<Rightarrow> Some x),
             task_id = numberToString now, createdAt = now'\<rparr>;
          r = nextRef s
      in persistTasks
           (s\<lparr>heap := (heap s)(r := newTask), nextRef := Suc r, tasks := tasks s @ [r]\<rparr>))"

definition showToast :: "undoFn \<Rightarrow> store \<Rightarrow> store" where
  "showToast undoFn s = s\<lparr>toast := Some undoFn\<rparr>"

definition hideToast :: "store \<Rightarrow> store" where
  "hideToast s = s\<lparr>toast := None\<rparr>"

text \<open>\<open>tasks.find((t) => t.id === id)\<close>, as the reference of the task found.\<close>

definition findTask :: "store \<Rightarrow> jsstring \<Rightarrow> ref option" where
  "findTask s i = List.find (\<lambda>r. task_id (heap s r) = i) (tasks s)"

text \<open>\<open>tasks.findIndex(...)\<close>, with \<open>None\<close> for \<open>-1\<close>.\<close>

fun findIndex :: "('a \<Rightarrow> bool) \<Rightarrow> 'a list \<Rightarrow> nat option" where
  "findIndex P [] = None"
| "findIndex P (x # xs) = (if P x then Some 0 else map_option Suc (findIndex P xs))"

definition setStatus :: "ref \<Rightarrow> jsstring \<Rightarrow> store \<Rightarrow> store" where
  "setStatus r v s = s\<lparr>heap := (heap s)(r := (heap s r)\<lparr>status := Some v\<rparr>)\<rparr>"

definition moveTask :: "jsstring \<Rightarrow> jsstring \<Rightarrow> store \<Rightarrow> store" where
  "moveTask i newStatus s =
     (case findTask s i of
        None \<Rightarrow> s
      | Some r \<Rightarrow>
          (let s = setStatus r newStatus s;
               s = (if newStatus = js ''done'' then showToast (UndoMove r) s else s)
           in persistTasks s))"

text \<open>The drop handler of a column: it moves only a task whose status differs.\<close>

definition dropTask :: "jsstring \<Rightarrow> jsstring \<Rightarrow> store \<Rightarrow> store" where
  "dropTask taskId key s =
     (case findTask s taskId of
        None \<Rightarrow> s
      | Some r \<Rightarrow>
          if status (heap s r) \<noteq> Some key then moveTask (task_id (heap s r)) key s else s)"

definition openTaskModal :: "jsstring option \<Rightarrow> store \<Rightarrow> store" where
  "openTaskModal i s = s\<lparr>currentEditId := i\<rparr>"

definition closeTaskModal :: "store \<Rightarrow> store" where
  "closeTaskModal s = s\<lparr>currentEditId := None\<rparr>"

text \<open>A string or \<open>null\<close> in a condition: \<open>null\<close> and the empty string are falsy.\<close>

definition truthy :: "jsstring option \<Rightarrow> bool" where
  "truthy v = (case v of None \<Rightarrow> False | Some x \<Rightarrow> x \<noteq> [])"

text \<open>\<open>value || undefined\<close>, as the form reads its inputs and selections.\<close>

definition orUndefined :: "jsstring \<Rightarrow> jsstring option" where
  "orUndefined v = (if v = [] then None else Some v)"

record form =
  taskTitleInput :: jsstring
  taskDueInput :: jsstring
  taskOwnerInput :: jsstring
  activeStatus :: jsstring
  activePriority :: jsstring

definition saveTask :: "int \<Rightarrow> int \<Rightarrow> form \<Rightarrow> store \<Rightarrow> store" where
  "saveTask now now' f s =
     (let title = trim (taskTitleInput f) in
      if title = [] then s
      else
        (let due = orUndefined (taskDueInput f);
             owner = trim (taskOwnerInput f);
             status = orUndefined (activeStatus f);
             priority = orUndefined (activePriority f)
         in if owner = [] \<or> due = None \<or> priority = None \<or> status = None then s
            else closeTaskModal
              (if truthy (currentEditId s) then
                 (case findTask s (the (currentEditId s)) of
                    Some r \<Rightarrow>
                      persistTasks
                        (s\<lparr>heap := (heap s)
                             (r := (heap s r)\<lparr>title := title, due := due, priority := priority,
                                               status := status, owner := Some owner\<rparr>)\<rparr>)
                  | None \<Rightarrow> s)
               else addTask now now'
                      \<lparr>title = title, due = due, priority = priority, status = status,
                       owner = Some owner\<rparr> s)))"

text \<open>
  \<open>deleteCurrentTask\<close>: \<open>splice(idx, 1)\<close> takes the task out, the toast keeps the
  closure that puts it back.
\<close>

definition deleteCurrentTask :: "store \<Rightarrow> store" where
  "deleteCurrentTask s =
     (if \<not> truthy (currentEditId s) then s
      else
        (case findIndex (\<lambda>r. task_id (heap s r) = the (currentEditId s)) (tasks s) of
           None \<Rightarrow> s
         | Some idx \<Rightarrow>
             (let removed = tasks s ! idx;
                  s = s\<lparr>tasks := take idx (tasks s) @ drop (Suc idx) (tasks s)\<rparr>;
                  s = closeTaskModal s;
                  s = persistTasks s
              in showToast (UndoDelete idx removed) s)))"

text \<open>
  Running a closure. \<open>splice(idx, 0, removed)\<close> inserts at \<open>idx\<close>, or at the end
  when the array is shorter than that.
\<close>

fun runUndo :: "undoFn \<Rightarrow> store \<Rightarrow> store" where
  "runUndo (UndoMove r) s = persistTasks (setStatus r (js ''doing'') s)"
| "runUndo (UndoDelete idx removed) s =
     persistTasks (s\<lparr>tasks := take idx (tasks s) @ removed # drop idx (tasks s)\<rparr>)"

text \<open>A click on the Undo button of the toast: the closure runs, then the toast is hidden.\<close>

definition clickUndo :: "store \<Rightarrow> store" where
  "clickUndo s = (case toast s of None \<Rightarrow> s | Some undoFn \<Rightarrow> hideToast (runUndo undoFn s))"

text \<open>The timer of the toast fires after five seconds and hides it.\<close>

definition toastTimeout :: "store \<Rightarrow> store" where
  "toastTimeout s = hideToast s"

text \<open>
  \<open>handleQuickAdd\<close> of the board: for a non-blank text the modal is opened for a new
  task, prefilled from the parser; no task is added yet.
\<close>

definition handleQuickAdd :: "jsstring \<Rightarrow> store \<Rightarrow> store" where
  "handleQuickAdd input s = (if trim input = [] then s else s\<lparr>currentEditId := None\<rparr>)"

text \<open>What can happen to the store, one event at a time.\<close>

datatype event =
    AddTask int int taskData
  | SaveTask int int form
  | MoveTask jsstring jsstring
  | DropTask jsstring jsstring
  | OpenTaskModal "jsstring option"
  | CloseTaskModal
  | DeleteCurrentTask
  | ClickUndo
  | ToastTimeout
  | HandleQuickAdd jsstring

fun step :: "event \<Rightarrow> store \<Rightarrow> store" where
  "step (AddTask now now' data) s = addTask now now' data s"
| "step (SaveTask now now' f) s = saveTask now now' f s"
| "step (MoveTask i newStatus) s = moveTask i newStatus s"
| "step (DropTask taskId key) s = dropTask taskId key s"
| "step (OpenTaskModal i) s = openTaskModal i s"
| "step CloseTaskModal s = closeTaskModal s"
| "step DeleteCurrentTask s = deleteCurrentTask s"
| "step ClickUndo s = clickUndo s"
| "step ToastTimeout s = toastTimeout s"
| "step (HandleQuickAdd input) s = handleQuickAdd input s"

text \<open>The store of a page that has loaded nothing.\<close>

definition emptyStore :: store where
  "emptyStore =
     \<lparr>heap = (\<lambda>r. \<lparr>title = [], due = None, priority = None, status = None, owner = None,
                    task_id = [], createdAt = 0\<rparr>),
      nextRef = 0, tasks = [], currentEditId = None, toast = None, stored = None,
      storageFails = False\<rparr>"

text \<open>
  An event creates a task with a fresh id when the decimal string of the clock reading it
  uses is the id of no task of the collection and of no task waiting in the toast.
\<close>

definition freshId :: "int \<Rightarrow> store \<Rightarrow> bool" where
  "freshId now s =
     (numberToString now \<notin> set (ids s) \<and>
      (case toast s of
         Some (UndoDelete idx r) \<Rightarrow> numberToString now \<noteq> task_id (heap s r)
       | _ \<Rightarrow> True))"

fun creates :: "event \<Rightarrow> store \<Rightarrow> int option" where
  "creates (AddTask now now' data) s = Some now"
| "creates (SaveTask now now' f) s = (if truthy (currentEditId s) then None else Some now)"
| "creates _ s = None"

text \<open>
  Ids are unique: no two tasks of the collection share an id, and a task waiting in the
  toast to be put back has an id that no task of the collection has. References in use
  lie below \<open>nextRef\<close>.
\<close>

definition uniqueIds :: "store \<Rightarrow> bool" where
  "uniqueIds s =
     (distinct (ids s) \<and> list_all (\<lambda>r. r < nextRef s) (tasks s) \<and>
      (case toast s of
         Some (UndoDelete idx r) \<Rightarrow> r < nextRef s \<and> task_id (heap s r) \<notin> set (ids s)
       | _ \<Rightarrow> True))"

section \<open>The statistics page\<close>

text \<open>
  The counters are plain objects, so a key that is missing among the own properties is
  looked up on \<open>Object.prototype\<close>. These are its property names.
\<close>

definition objectPrototypeKeys :: "jsstring list" where
  "objectPrototypeKeys =
     map js [''constructor'', ''__defineGetter__'', ''__defineSetter__'', ''hasOwnProperty'',
             ''__lookupGetter__'', ''__lookupSetter__'', ''isPrototypeOf'',
             ''propertyIsEnumerable'', ''toString'', ''valueOf'', ''__proto__'',
             ''toLocaleString'']"

text \<open>
  The value of a counter: a number, or the string that \<open>+ 1\<close> makes of a value that
  is not a number.
\<close>

datatype counter = Number nat | NotANumber

text \<open>
  \<open>counts[key] = (counts[key] || 0) + 1\<close>. An inherited value is a function or an
  object: truthy, and \<open>+ 1\<close> concatenates. Assigning a string to \<open>__proto__\<close>
  changes nothing.
\<close>

definition countUp :: "(jsstring \<rightharpoonup> counter) \<Rightarrow> jsstring \<Rightarrow> (jsstring \<rightharpoonup> counter)" where
  "countUp counts key =
     (let new =
            (case counts key of
               Some (Number n) \<Rightarrow> Number (n + 1)
             | Some NotANumber \<Rightarrow> NotANumber
             | None \<Rightarrow> if key \<in> set objectPrototypeKeys then NotANumber else Number 1)
      in if key = js ''__proto__'' then counts else counts(key \<mapsto> new))"

text \<open>\<open>task.status || "unknown"\<close>.\<close>

definition statusKey :: "task \<Rightarrow> jsstring" where
  "statusKey t = (if truthy (status t) then the (status t) else js ''unknown'')"

text \<open>The \<open>forEach\<close> over the tasks, for the status counter.\<close>

definition statusCounts :: "task list \<Rightarrow> (jsstring \<rightharpoonup> counter)" where
  "statusCounts ts = fold (\<lambda>t counts. countUp counts (statusKey t)) ts Map.empty"

section \<open>Vocabulary for the claims about the store and the statistics\<close>

text \<open>The task that \<open>tasks.find\<close> returns for an id.\<close>

definition taskWithId :: "store \<Rightarrow> jsstring \<Rightarrow> task option" where
  "taskWithId s i = map_option (heap s) (findTask s i)"

text \<open>A counter object holds a key only once it has counted something under it.\<close>

definition bucket :: "nat \<Rightarrow> counter option" where
  "bucket n = (if n = 0 then None else Some (Number n))"

subsection \<open>Sample data\<close>

definition sampleData :: taskData where
  "sampleData =
     \<lparr>title = js ''Ship report'', due = Some (js ''2024-03-05''), priority = Some (js ''medium''),
      status = Some (js ''todo''), owner = None\<rparr>"

text \<open>Three tasks created one millisecond apart.\<close>

definition sampleStore :: store where
  "sampleStore =
     addTask 1700000000002 1700000000002 sampleData
       (addTask 1700000000001 1700000000001 sampleData
          (addTask 1700000000000 1700000000000 sampleData emptyStore))"

definition sampleTask :: "string \<Rightarrow> jsstring option \<Rightarrow> task" where
  "sampleTask i st =
     \<lparr>title = js ''Ship report'', due = None, priority = None, status = st, owner = None,
      task_id = js i, createdAt = 1\<rparr>"

section \<open>Facts about the parser\<close>

lemmas parser_eval = js_def parseInput_def priorityOfCount_def trim_def whitespace_def
  digit_def digit01_def digit03_def Let_def

lemma length_10_cases:
  assumes "length (d::'a list) = 10"
  obtains x0 x1 x2 x3 x4 x5 x6 x7 x8 x9 where "d = [x0,x1,x2,x3,x4,x5,x6,x7,x8,x9]"
  using assms by (auto simp: length_Suc_conv eval_nat_numeral)

lemma dueAt_iff: "dueAt s \<longleftrightarrow> (\<exists>d b. s = AT # d @ b \<and> dueShape d)"
proof
  assume "dueAt s"
  then obtain a y1 y2 y3 y4 h1 m1 m2 h2 d1 d2 rest
    where s: "s = a # y1 # y2 # y3 # y4 # h1 # m1 # m2 # h2 # d1 # d2 # rest"
    by (cases s rule: dueAt.cases) auto
  with \<open>dueAt s\<close> have "s = AT # [y1,y2,y3,y4,h1,m1,m2,h2,d1,d2] @ rest \<and> dueShape [y1,y2,y3,y4,h1,m1,m2,h2,d1,d2]"
    by (auto simp: dueShape_def js_def)
  then show "\<exists>d b. s = AT # d @ b \<and> dueShape d" by blast
next
  assume "\<exists>d b. s = AT # d @ b \<and> dueShape d"
  then obtain d b where s: "s = AT # d @ b" and d: "dueShape d" by blast
  from d have "length d = 10" by (simp add: dueShape_def)
  then obtain x0 x1 x2 x3 x4 x5 x6 x7 x8 x9 where "d = [x0,x1,x2,x3,x4,x5,x6,x7,x8,x9]"
    by (rule length_10_cases)
  with s d show "dueAt s" by (auto simp: dueShape_def js_def)
qed

lemma dueShape_no_bang: "dueShape d \<Longrightarrow> BANG \<notin> set d"
proof -
  assume d: "dueShape d"
  then have "length d = 10" by (simp add: dueShape_def)
  then obtain x0 x1 x2 x3 x4 x5 x6 x7 x8 x9 where "d = [x0,x1,x2,x3,x4,x5,x6,x7,x8,x9]"
    by (rule length_10_cases)
  with d show ?thesis
    by (auto simp: dueShape_def js_def digit_def digit01_def digit03_def)
qed

lemma dueAt_length: "dueAt s \<Longrightarrow> 11 \<le> length s"
  by (cases s rule: dueAt.cases) auto

lemma dueAt_take: "dueAt (take 11 s) = dueAt s"
  by (cases s rule: dueAt.cases) auto

lemma dueAt_append: "11 \<le> length s \<Longrightarrow> dueAt (s @ x) = dueAt s"
proof -
  assume "11 \<le> length s"
  then have "take 11 (s @ x) = take 11 s" by simp
  then show ?thesis by (metis dueAt_take)
qed

lemma dueAt_token: "dueAt s \<Longrightarrow> \<exists>d. take 11 s = AT # d \<and> dueShape d \<and> s = AT # d @ drop 11 s"
proof -
  assume "dueAt s"
  then obtain d b where s: "s = AT # d @ b" and d: "dueShape d" using dueAt_iff by blast
  from d have "length d = 10" by (simp add: dueShape_def)
  with s d show ?thesis by simp
qed

lemma matchDue_firstDueToken:
  "matchDue s = map_option (\<lambda>(a, t, b). (t, tl t)) (firstDueToken s)"
  by (induction s) (auto simp: option.map_comp comp_def case_prod_unfold)

lemma firstDueToken_Some:
  "firstDueToken s = Some (a, t, b) \<Longrightarrow>
     s = a @ t @ b \<and> (\<exists>d. t = AT # d \<and> dueShape d) \<and>
     (\<forall>p q. a = p @ q \<longrightarrow> q \<noteq> [] \<longrightarrow> \<not> dueAt (q @ t @ b))"
proof (induction s arbitrary: a)
  case Nil
  then show ?case by simp
next
  case (Cons c cs)
  show ?case
  proof (cases "dueAt (c # cs)")
    case True
    with Cons.prems have a: "a = []" and t: "t = take 11 (c # cs)" and b: "b = drop 11 (c # cs)"
      by auto
    from dueAt_token [OF True] t b a show ?thesis by auto
  next
    case False
    with Cons.prems obtain a' where f: "firstDueToken cs = Some (a', t, b)" and a: "a = c # a'"
      by auto
    from Cons.IH [OF f] have cs: "cs = a' @ t @ b" and tok: "\<exists>d. t = AT # d \<and> dueShape d"
      and first: "\<forall>p q. a' = p @ q \<longrightarrow> q \<noteq> [] \<longrightarrow> \<not> dueAt (q @ t @ b)" by auto
    have "\<not> dueAt (q @ t @ b)" if pq: "a = p @ q" and q: "q \<noteq> []" for p q
    proof (cases p)
      case Nil
      with pq have "q = c # a'" using a by simp
      with cs False show ?thesis by simp
    next
      case (Cons x p')
      with pq a have "a' = p' @ q" by simp
      with first q show ?thesis by blast
    qed
    with cs tok a show ?thesis by auto
  qed
qed

lemma firstDueToken_None: "firstDueToken s = None \<Longrightarrow> \<not> dueAt (drop i s)"
proof (induction s arbitrary: i)
  case Nil
  then show ?case by simp
next
  case (Cons c cs)
  then show ?case by (cases i) (auto split: if_splits)
qed

lemma firstDueToken_None_iff:
  "firstDueToken s = None \<longleftrightarrow> (\<forall>a d b. s = a @ AT # d @ b \<longrightarrow> \<not> dueShape d)"
proof
  assume n: "firstDueToken s = None"
  show "\<forall>a d b. s = a @ AT # d @ b \<longrightarrow> \<not> dueShape d"
  proof (intro allI impI notI)
    fix a d b assume s: "s = a @ AT # d @ b" and d: "dueShape d"
    then have "dueAt (drop (length a) s)" using dueAt_iff by auto
    with firstDueToken_None [OF n] show False by blast
  qed
next
  assume h: "\<forall>a d b. s = a @ AT # d @ b \<longrightarrow> \<not> dueShape d"
  show "firstDueToken s = None"
  proof (rule ccontr)
    assume "firstDueToken s \<noteq> None"
    then obtain a t b where "firstDueToken s = Some (a, t, b)" by auto
    from firstDueToken_Some [OF this] obtain d where "s = a @ AT # d @ b" and "dueShape d"
      by auto
    with h show False by blast
  qed
qed

lemma firstDueToken_firstDueAt:
  assumes "firstDueToken s = Some (a, t, b)"
  shows "firstDueAt s a (tl t) b \<and> t = AT # tl t"
proof -
  from firstDueToken_Some [OF assms] obtain d where s: "s = a @ t @ b" and t: "t = AT # d"
    and d: "dueShape d" and first: "\<forall>p q. a = p @ q \<longrightarrow> q \<noteq> [] \<longrightarrow> \<not> dueAt (q @ t @ b)"
    by auto
  have "length a \<le> length a'" if s': "s = a' @ AT # d' @ b'" and d': "dueShape d'" for a' d' b'
  proof (rule ccontr)
    assume "\<not> length a \<le> length a'"
    then have lt: "length a' < length a" by simp
    from s s' have "a @ (t @ b) = a' @ (AT # d' @ b')" by simp
    then obtain q where "a = a' @ q" and q: "q @ t @ b = AT # d' @ b'"
      using lt by (auto simp: append_eq_append_conv2)
    with lt have "q \<noteq> []" by auto
    moreover from q d' have "dueAt (q @ t @ b)" using dueAt_iff by auto
    ultimately show False using first \<open>a = a' @ q\<close> by blast
  qed
  with s t d show ?thesis by (auto simp: firstDueAt_def)
qed

lemma firstDueAt_firstDueToken:
  assumes "firstDueAt s a d b"
  shows "firstDueToken s = Some (a, AT # d, b)"
proof -
  from assms have s: "s = a @ AT # d @ b" and d: "dueShape d"
    and first: "\<And>a' d' b'. s = a' @ AT # d' @ b' \<Longrightarrow> dueShape d' \<Longrightarrow> length a \<le> length a'"
    by (auto simp: firstDueAt_def)
  from s d have "firstDueToken s \<noteq> None" using firstDueToken_None_iff by blast
  then obtain a2 t2 b2 where f: "firstDueToken s = Some (a2, t2, b2)" by auto
  from firstDueToken_firstDueAt [OF f] obtain d2 where t2: "t2 = AT # d2"
    and f2: "firstDueAt s a2 d2 b2" by auto
  from f2 have s2: "s = a2 @ AT # d2 @ b2" and d2: "dueShape d2"
    and first2: "\<And>a' d' b'. s = a' @ AT # d' @ b' \<Longrightarrow> dueShape d' \<Longrightarrow> length a2 \<le> length a'"
    by (auto simp: firstDueAt_def)
  from first [OF s2 d2] first2 [OF s d] have "length a = length a2" by simp
  with s s2 have "a = a2" and "d @ b = d2 @ b2" by auto
  moreover from d d2 have "length d = length d2" by (simp add: dueShape_def)
  ultimately show ?thesis using f t2 by auto
qed

lemma prefix_token_dueAt:
  assumes "dueShape d" and "prefix (AT # d) s"
  shows "dueAt s"
  using assms dueAt_iff by (auto simp: prefix_def)

lemma replaceFirst_skip:
  "(\<forall>p q. a = p @ q \<longrightarrow> q \<noteq> [] \<longrightarrow> \<not> prefix t (q @ t @ r)) \<Longrightarrow> t \<noteq> [] \<Longrightarrow>
     replaceFirst (a @ t @ r) t = a @ r"
proof (induction a)
  case Nil
  then show ?case by (cases t) auto
next
  case (Cons c a)
  have "c # a = [] @ (c # a)" by simp
  with Cons.prems(1) have n: "\<not> prefix t ((c # a) @ t @ r)" by blast
  have "\<not> prefix t (q @ t @ r)" if "a = p @ q" and "q \<noteq> []" for p q
  proof -
    from that have "c # a = (c # p) @ q" by simp
    with Cons.prems(1) that show ?thesis by blast
  qed
  with Cons.IH Cons.prems(2) have "replaceFirst (a @ t @ r) t = a @ r" by blast
  with n show ?case by simp
qed

lemma parseInput_alt:
  "parseInput input =
     \<lparr>title = trim (bangsRemoved input (dueRemoved input)),
      due = map_option snd (matchDue input),
      priority = (case matchBangs input of None \<Rightarrow> None | Some p0 \<Rightarrow> priorityOfCount (length p0))\<rparr>"
  by (simp add: parseInput_def dueRemoved_def bangsRemoved_def split: option.splits)

lemma replaceFirst_token:
  assumes "firstDueToken s = Some (a, t, b)"
  shows "replaceFirst s t = a @ b"
proof -
  from firstDueToken_Some [OF assms] obtain d where s: "s = a @ t @ b" and t: "t = AT # d"
    and d: "dueShape d" and first: "\<forall>p q. a = p @ q \<longrightarrow> q \<noteq> [] \<longrightarrow> \<not> dueAt (q @ t @ b)"
    by auto
  have "\<forall>p q. a = p @ q \<longrightarrow> q \<noteq> [] \<longrightarrow> \<not> prefix t (q @ t @ b)"
    using first prefix_token_dueAt [OF d] t by blast
  moreover have "t \<noteq> []" using t by simp
  ultimately show ?thesis using replaceFirst_skip s by blast
qed

lemma dueRemoved_Some: "firstDueToken s = Some (a, t, b) \<Longrightarrow> dueRemoved s = a @ b"
  by (simp add: dueRemoved_def matchDue_firstDueToken replaceFirst_token)

lemma dueRemoved_None: "firstDueToken s = None \<Longrightarrow> dueRemoved s = s"
  by (simp add: dueRemoved_def matchDue_firstDueToken)

lemma matchBangs_None: "matchBangs s = None \<longleftrightarrow> BANG \<notin> set s"
  by (induction s) auto

lemma matchBangs_skip: "BANG \<notin> set pre \<Longrightarrow> matchBangs (pre @ x) = matchBangs x"
  by (induction pre) auto

lemma matchBangs_run:
  assumes "BANG \<notin> set pre" and "0 < n" and "post = [] \<or> hd post \<noteq> BANG"
  shows "matchBangs (pre @ replicate n BANG @ post) = Some (replicate n BANG)"
proof -
  from assms(2) obtain m where n: "n = Suc m" by (cases n) auto
  have "takeWhile (\<lambda>x. x = BANG) post = []"
    using assms(3) by (cases post) auto
  then have "takeWhile (\<lambda>x. x = BANG) (replicate m BANG @ post) = replicate m BANG"
    by (induction m) auto
  with n show ?thesis by (simp add: matchBangs_skip [OF assms(1)])
qed

lemma replaceFirst_run:
  assumes "BANG \<notin> set pre" and "0 < n"
  shows "replaceFirst (pre @ replicate n BANG @ x) (replicate n BANG) = pre @ x"
proof -
  have "\<not> prefix (replicate n BANG) (q @ replicate n BANG @ x)" if "pre = p @ q" and "q \<noteq> []" for p q
  proof -
    from that assms(1) obtain c q' where "q = c # q'" and "c \<noteq> BANG" by (cases q) auto
    with assms(2) show ?thesis by (cases n) auto
  qed
  moreover from assms(2) have "replicate n BANG \<noteq> []" by simp
  ultimately show ?thesis using replaceFirst_skip by blast
qed

lemma firstDueToken_append:
  "firstDueToken pre = Some (a, t, b) \<Longrightarrow> firstDueToken (pre @ x) = Some (a, t, b @ x)"
proof (induction pre arbitrary: a)
  case Nil
  then show ?case by simp
next
  case (Cons c cs)
  show ?case
  proof (cases "dueAt (c # cs)")
    case True
    then have "11 \<le> length (c # cs)" by (rule dueAt_length)
    with True Cons.prems show ?thesis using dueAt_append [of "c # cs" x] by auto
  next
    case False
    with Cons.prems obtain a' where f: "firstDueToken cs = Some (a', t, b)" and a: "a = c # a'"
      by auto
    from firstDueToken_Some [OF f] have "11 \<le> length cs" by (auto simp: dueShape_def)
    then have "dueAt ((c # cs) @ x) = dueAt (c # cs)" by (intro dueAt_append) simp
    with False Cons.IH [OF f] a show ?thesis by simp
  qed
qed

lemma dueAt_bang_short:
  assumes "\<not> dueAt s"
  shows "\<not> dueAt (s @ BANG # x)"
proof
  assume h: "dueAt (s @ BANG # x)"
  show False
  proof (cases "11 \<le> length s")
    case True
    with h assms show False by (simp add: dueAt_append)
  next
    case False
    from dueAt_token [OF h] obtain d where t: "take 11 (s @ BANG # x) = AT # d" and d: "dueShape d"
      by blast
    from False obtain k where "11 - length s = Suc k" by (cases "11 - length s") auto
    then have "BANG \<in> set (take 11 (s @ BANG # x))" by simp
    with t dueShape_no_bang [OF d] show False by simp
  qed
qed

lemma firstDueToken_bang:
  "firstDueToken pre = None \<Longrightarrow>
     firstDueToken (pre @ BANG # x) =
       map_option (\<lambda>(a, t, b). (pre @ BANG # a, t, b)) (firstDueToken x)"
proof (induction pre)
  case Nil
  show ?case by (cases x rule: dueAt.cases) simp_all
next
  case (Cons c cs)
  from Cons.prems have nd: "\<not> dueAt (c # cs)" and n: "firstDueToken cs = None"
    by (auto split: if_splits)
  from dueAt_bang_short [OF nd] have "\<not> dueAt ((c # cs) @ BANG # x)" .
  with Cons.IH [OF n] show ?case
    by (simp add: option.map_comp comp_def case_prod_unfold)
qed

lemma firstDueToken_run0:
  "firstDueToken (replicate (Suc m) BANG @ x) =
     map_option (\<lambda>(a, t, b). (replicate (Suc m) BANG @ a, t, b)) (firstDueToken x)"
proof (induction m)
  case 0
  show ?case using firstDueToken_bang [of "[]" x] by simp
next
  case (Suc m)
  have "firstDueToken (replicate (Suc (Suc m)) BANG @ x) =
          map_option (\<lambda>(a, t, b). (BANG # a, t, b)) (firstDueToken (replicate (Suc m) BANG @ x))"
    using firstDueToken_bang [of "[]" "replicate (Suc m) BANG @ x"] by simp
  with Suc show ?case by (simp add: option.map_comp comp_def case_prod_unfold)
qed

lemma firstDueToken_run:
  assumes "firstDueToken pre = None" and "0 < n"
  shows "firstDueToken (pre @ replicate n BANG @ x) =
           map_option (\<lambda>(a, t, b). (pre @ replicate n BANG @ a, t, b)) (firstDueToken x)"
proof (cases n)
  case 0
  with assms(2) show ?thesis by simp
next
  case (Suc m)
  show ?thesis
  proof (cases m)
    case 0
    with Suc show ?thesis using firstDueToken_bang [OF assms(1), of x] by simp
  next
    case (Suc k)
    have "firstDueToken (pre @ BANG # replicate m BANG @ x) =
            map_option (\<lambda>(a, t, b). (pre @ BANG # a, t, b)) (firstDueToken (replicate m BANG @ x))"
      using firstDueToken_bang [OF assms(1), of "replicate m BANG @ x"] by simp
    with firstDueToken_run0 [of k x] Suc \<open>n = Suc m\<close> show ?thesis
      by (simp add: option.map_comp comp_def case_prod_unfold)
  qed
qed

lemma priorityOfCount_cases:
  "0 < n \<Longrightarrow> priorityOfCount n =
     Some (if n = 1 then js ''high'' else if n = 2 then js ''medium'' else js ''low'')"
  by (auto simp: priorityOfCount_def Let_def)

lemma title_parseInput: "title (parseInput input) = trim (bangsRemoved input (dueRemoved input))"
  by (simp add: parseInput_alt)

lemma due_parseInput: "due (parseInput input) = map_option (\<lambda>(a, t, b). tl t) (firstDueToken input)"
  by (simp add: parseInput_alt matchDue_firstDueToken option.map_comp comp_def case_prod_unfold)

lemma priority_parseInput:
  "priority (parseInput input) =
     (case matchBangs input of None \<Rightarrow> None | Some p0 \<Rightarrow> priorityOfCount (length p0))"
  by (simp add: parseInput_alt)

text \<open>
  C3. When no \<open>@\<close> followed by a date of the shape \<open>dueShape\<close> occurs in the input,
  \<open>due\<close> is absent and the title is the input (less the priority run, trimmed). When the
  input is \<open>a\<close>, \<open>@\<close>, a date \<open>d\<close> of that shape, \<open>b\<close>, and no such token starts
  further left, \<open>due\<close> is \<open>d\<close> as it stands and the title is made from \<open>a @ b\<close>:
  exactly that token is taken out. The shape is a pattern of digits (year \<open>19xx\<close> or
  \<open>20xx\<close>, month \<open>[01]\<close> and a digit, day \<open>[0-3]\<close> and a digit), with no check of the
  calendar.
\<close>

theorem parseInput_due_first_match:
  "((\<forall>a d b. input = a @ AT # d @ b \<longrightarrow> \<not> dueShape d) \<longrightarrow>
      due (parseInput input) = None \<and>
      title (parseInput input) = trim (bangsRemoved input input)) \<and>
   (firstDueAt input a d b \<longrightarrow>
      due (parseInput input) = Some d \<and>
      title (parseInput input) = trim (bangsRemoved input (a @ b)))"
proof (intro conjI impI)
  assume "\<forall>a d b. input = a @ AT # d @ b \<longrightarrow> \<not> dueShape d"
  then have n: "firstDueToken input = None" by (simp add: firstDueToken_None_iff)
  then show "due (parseInput input) = None" by (simp add: due_parseInput)
  from n show "title (parseInput input) = trim (bangsRemoved input input)"
    by (simp add: title_parseInput dueRemoved_None)
next
  assume "firstDueAt input a d b"
  then have f: "firstDueToken input = Some (a, AT # d, b)" by (rule firstDueAt_firstDueToken)
  then show "due (parseInput input) = Some d" by (simp add: due_parseInput)
  from f show "title (parseInput input) = trim (bangsRemoved input (a @ b))"
    by (simp add: title_parseInput dueRemoved_Some)
qed

text \<open>
  C7. An input without \<open>!\<close> has no priority. Otherwise let the input be \<open>pre\<close>, then
  \<open>n\<close> times \<open>!\<close>, then \<open>post\<close>, where \<open>pre\<close> has no \<open>!\<close> and \<open>post\<close> does not
  start with one: that is its first run. The priority is high for \<open>n = 1\<close>, medium for
  \<open>n = 2\<close> and low from 3 on, and the title is made from \<open>pre\<close> and \<open>post\<close> (less the
  due-date token, trimmed): the run is taken out and everything after it, later runs
  included, stays.
\<close>

theorem parseInput_priority_first_run:
  "(BANG \<notin> set input \<longrightarrow>
      priority (parseInput input) = None \<and>
      title (parseInput input) = trim (dueRemoved input)) \<and>
   (input = pre @ replicate n BANG @ post \<and> BANG \<notin> set pre \<and> 0 < n \<and>
    (post = [] \<or> hd post \<noteq> BANG) \<longrightarrow>
      priority (parseInput input) =
        Some (if n = 1 then js ''high'' else if n = 2 then js ''medium'' else js ''low'') \<and>
      title (parseInput input) =
        trim (if matchDue pre = None then pre @ dueRemoved post else dueRemoved pre @ post))"
proof (intro conjI impI)
  assume "BANG \<notin> set input"
  then have n: "matchBangs input = None" by (simp add: matchBangs_None)
  then show "priority (parseInput input) = None" by (simp add: priority_parseInput)
  from n show "title (parseInput input) = trim (dueRemoved input)"
    by (simp add: title_parseInput bangsRemoved_def)
next
  assume h: "input = pre @ replicate n BANG @ post \<and> BANG \<notin> set pre \<and> 0 < n \<and>
    (post = [] \<or> hd post \<noteq> BANG)"
  then have input: "input = pre @ replicate n BANG @ post" and pre: "BANG \<notin> set pre"
    and n: "0 < n" and post: "post = [] \<or> hd post \<noteq> BANG" by auto
  have m: "matchBangs input = Some (replicate n BANG)"
    unfolding input using pre n post by (rule matchBangs_run)
  then show "priority (parseInput input) =
        Some (if n = 1 then js ''high'' else if n = 2 then js ''medium'' else js ''low'')"
    using n by (simp add: priority_parseInput priorityOfCount_cases)
  have t: "title (parseInput input) = trim (replaceFirst (dueRemoved input) (replicate n BANG))"
    using m by (simp add: title_parseInput bangsRemoved_def)
  show "title (parseInput input) =
        trim (if matchDue pre = None then pre @ dueRemoved post else dueRemoved pre @ post)"
  proof (cases "firstDueToken pre")
    case None
    then have mp: "matchDue pre = None" by (simp add: matchDue_firstDueToken)
    have f: "firstDueToken input =
        map_option (\<lambda>(a, t, b). (pre @ replicate n BANG @ a, t, b)) (firstDueToken post)"
      unfolding input using None n by (rule firstDueToken_run)
    show ?thesis
    proof (cases "firstDueToken post")
      case None
      with f have "dueRemoved input = input" and "dueRemoved post = post"
        by (simp_all add: dueRemoved_None)
      with t mp input show ?thesis using replaceFirst_run [OF pre n] by simp
    next
      case (Some r)
      then obtain a' t' b' where r: "firstDueToken post = Some (a', t', b')" by (cases r) auto
      with f have "dueRemoved input = (pre @ replicate n BANG @ a') @ b'"
        by (simp add: dueRemoved_Some)
      moreover from r have "dueRemoved post = a' @ b'" by (rule dueRemoved_Some)
      ultimately show ?thesis using t mp replaceFirst_run [OF pre n, of "a' @ b'"] by simp
    qed
  next
    case (Some r)
    then obtain a' t' b' where r: "firstDueToken pre = Some (a', t', b')" by (cases r) auto
    then have mp: "matchDue pre \<noteq> None" by (simp add: matchDue_firstDueToken)
    from firstDueToken_Some [OF r] have "pre = a' @ t' @ b'" by simp
    with pre have nb: "BANG \<notin> set (a' @ b')" by auto
    from firstDueToken_append [OF r] have "firstDueToken input = Some (a', t', b' @ replicate n BANG @ post)"
      by (simp add: input)
    then have "dueRemoved input = (a' @ b') @ replicate n BANG @ post"
      by (simp add: dueRemoved_Some)
    moreover from r have "dueRemoved pre = a' @ b'" by (rule dueRemoved_Some)
    ultimately show ?thesis using t mp replaceFirst_run [OF nb n, of post] by auto
  qed
qed

lemma parseInput_dueFirst_alt:
  "parseInput_dueFirst input =
     \<lparr>title = trim (bangsRemoved (dueRemoved input) (dueRemoved input)),
      due = map_option snd (matchDue input),
      priority = (case matchBangs (dueRemoved input) of None \<Rightarrow> None
                  | Some p0 \<Rightarrow> priorityOfCount (length p0))\<rparr>"
  by (simp add: parseInput_dueFirst_def dueRemoved_def bangsRemoved_def split: option.splits)

lemma parseInput_eq_dueFirst:
  "matchBangs (dueRemoved input) = matchBangs input \<Longrightarrow> parseInput input = parseInput_dueFirst input"
  by (simp add: parseInput_alt parseInput_dueFirst_alt bangsRemoved_def)

lemma takeWhile_bang_token:
  assumes "BANG \<notin> set t" and "t \<noteq> []"
    and "set a \<subseteq> {BANG} \<longrightarrow> b = [] \<or> hd b \<noteq> BANG"
  shows "takeWhile (\<lambda>x. x = BANG) (a @ t @ b) = takeWhile (\<lambda>x. x = BANG) (a @ b)"
  using assms(3)
proof (induction a)
  case Nil
  from assms(1,2) have "takeWhile (\<lambda>x. x = BANG) (t @ b) = []" by (cases t) auto
  moreover from Nil have "takeWhile (\<lambda>x. x = BANG) b = []" by (cases b) auto
  ultimately show ?case by simp
next
  case (Cons c a)
  then show ?case by auto
qed

lemma matchBangs_token:
  assumes "BANG \<notin> set t" and "t \<noteq> []"
    and "\<not> (a \<noteq> [] \<and> last a = BANG \<and> b \<noteq> [] \<and> hd b = BANG)"
  shows "matchBangs (a @ t @ b) = matchBangs (a @ b)"
  using assms(3)
proof (induction a)
  case Nil
  show ?case using matchBangs_skip [OF assms(1)] by simp
next
  case (Cons c a)
  show ?case
  proof (cases "c = BANG")
    case True
    have "set a \<subseteq> {BANG} \<longrightarrow> b = [] \<or> hd b \<noteq> BANG"
    proof
      assume "set a \<subseteq> {BANG}"
      then have "last (c # a) = BANG" using True by (induction a) auto
      with Cons.prems show "b = [] \<or> hd b \<noteq> BANG" by auto
    qed
    from takeWhile_bang_token [OF assms(1,2) this] True show ?thesis by simp
  next
    case False
    from Cons.prems have "\<not> (a \<noteq> [] \<and> last a = BANG \<and> b \<noteq> [] \<and> hd b = BANG)" by auto
    with Cons.IH False show ?thesis by simp
  qed
qed

text \<open>
  C6, as amended. The parser searches the priority run in the input, not in the title that
  remains once the due-date token is out. The result is the one of searching after the
  removal (\<open>parseInput_dueFirst\<close>) when the input has no due-date token, and when its
  first due-date token does not stand directly between two \<open>!\<close>.
\<close>

theorem parseInput_due_removed_first:
  "((\<forall>a d b. input = a @ AT # d @ b \<longrightarrow> \<not> dueShape d) \<longrightarrow>
      parseInput input = parseInput_dueFirst input) \<and>
   (firstDueAt input a d b \<and> \<not> (a \<noteq> [] \<and> last a = BANG \<and> b \<noteq> [] \<and> hd b = BANG) \<longrightarrow>
      parseInput input = parseInput_dueFirst input)"
proof (intro conjI impI)
  assume "\<forall>a d b. input = a @ AT # d @ b \<longrightarrow> \<not> dueShape d"
  then have "firstDueToken input = None" by (simp add: firstDueToken_None_iff)
  then have "dueRemoved input = input" by (rule dueRemoved_None)
  then show "parseInput input = parseInput_dueFirst input" by (simp add: parseInput_eq_dueFirst)
next
  assume h: "firstDueAt input a d b \<and> \<not> (a \<noteq> [] \<and> last a = BANG \<and> b \<noteq> [] \<and> hd b = BANG)"
  then have f: "firstDueToken input = Some (a, AT # d, b)" by (simp add: firstDueAt_firstDueToken)
  from h have input: "input = a @ (AT # d) @ b" and d: "dueShape d" by (auto simp: firstDueAt_def)
  from d have "BANG \<notin> set (AT # d)" using dueShape_no_bang by simp
  moreover have "AT # d \<noteq> []" by simp
  moreover from h have "\<not> (a \<noteq> [] \<and> last a = BANG \<and> b \<noteq> [] \<and> hd b = BANG)" by simp
  ultimately have "matchBangs (a @ (AT # d) @ b) = matchBangs (a @ b)" by (rule matchBangs_token)
  moreover from f have "dueRemoved input = a @ b" by (rule dueRemoved_Some)
  ultimately show "parseInput input = parseInput_dueFirst input"
    using input by (simp add: parseInput_eq_dueFirst)
qed

theorem parseInput_due_removed_first_witness:
  "firstDueAt (js ''Ship report @2024-03-05 !!'') (js ''Ship report '') (js ''2024-03-05'') (js '' !!'') \<and>
   parseInput (js ''Ship report @2024-03-05 !!'') = parseInput_dueFirst (js ''Ship report @2024-03-05 !!'') \<and>
   parseInput (js ''Buy milk !'') = parseInput_dueFirst (js ''Buy milk !'')"
proof -
  have "firstDueToken (js ''Ship report @2024-03-05 !!'') =
          Some (js ''Ship report '', AT # js ''2024-03-05'', js '' !!'')"
    by (simp add: parser_eval)
  from firstDueToken_firstDueAt [OF this]
  have f: "firstDueAt (js ''Ship report @2024-03-05 !!'') (js ''Ship report '') (js ''2024-03-05'') (js '' !!'')"
    by simp
  have e: "\<not> (js ''Ship report '' \<noteq> [] \<and> last (js ''Ship report '') = BANG \<and> js '' !!'' \<noteq> [] \<and>
              hd (js '' !!'') = BANG)"
    by (simp add: js_def)
  have "firstDueToken (js ''Buy milk !'') = None" by (simp add: parser_eval)
  then have n: "\<forall>a d b. js ''Buy milk !'' = a @ AT # d @ b \<longrightarrow> \<not> dueShape d"
    by (simp only: firstDueToken_None_iff)
  from f e n show ?thesis
    using parseInput_due_removed_first [of "js ''Ship report @2024-03-05 !!''" "js ''Ship report ''"
        "js ''2024-03-05''" "js '' !!''"]
      parseInput_due_removed_first [of "js ''Buy milk !''"]
    by blast
qed

text \<open>
  C6 as stated fails on \<open>!@2024-03-05!\<close>: the parser finds the run \<open>!\<close> in the input,
  sets priority high and leaves the title \<open>!\<close>; searching after the removal would find
  \<open>!!\<close>, set priority medium and leave an empty title.
\<close>

theorem parseInput_bangs_around_due_counterexample:
  "priority (parseInput (js ''!@2024-03-05!'')) = Some (js ''high'') \<and>
   title (parseInput (js ''!@2024-03-05!'')) = js ''!'' \<and>
   priority (parseInput_dueFirst (js ''!@2024-03-05!'')) = Some (js ''medium'') \<and>
   title (parseInput_dueFirst (js ''!@2024-03-05!'')) = js ''''"
  by (simp add: parser_eval parseInput_dueFirst_def)

section \<open>Facts about the store\<close>

lemmas store_eval = collection_def ids_def persistTasks_def persist_def addTask_def showToast_def
  hideToast_def findTask_def setStatus_def moveTask_def dropTask_def openTaskModal_def
  closeTaskModal_def truthy_def orUndefined_def deleteCurrentTask_def clickUndo_def
  toastTimeout_def handleQuickAdd_def emptyStore_def Let_def

lemma findIndex_Some:
  "findIndex P xs = Some i \<Longrightarrow> i < length xs \<and> P (xs ! i) \<and> (\<forall>j<i. \<not> P (xs ! j))"
proof (induction xs arbitrary: i)
  case Nil
  then show ?case by simp
next
  case (Cons x xs)
  show ?case
  proof (cases "P x")
    case True
    with Cons.prems show ?thesis by simp
  next
    case False
    with Cons.prems obtain k where k: "findIndex P xs = Some k" and i: "i = Suc k" by auto
    from Cons.IH [OF k] False i show ?thesis by (auto simp: less_Suc_eq_0_disj)
  qed
qed

lemma findIndex_None: "findIndex P xs = None \<longleftrightarrow> (\<forall>x\<in>set xs. \<not> P x)"
  by (induction xs) auto

lemma splice_back: "i < length xs \<Longrightarrow>
  take i (take i xs @ drop (Suc i) xs) @ xs ! i # drop i (take i xs @ drop (Suc i) xs) = xs"
  by (simp add: min_def id_take_nth_drop [symmetric])

lemma collection_persistTasks [simp]: "collection (persistTasks s) = collection s"
  by (simp add: collection_def persistTasks_def)

text \<open>
  C4. For an id \<open>i\<close> of the collection, opening the task, deleting it and clicking Undo
  while the toast is still shown gives back the collection as it was: the same tasks at
  the same positions. An empty id is falsy, so deleting does nothing for it; the statement
  covers it when no older toast is waiting.
\<close>

theorem delete_then_undo_restores:
  assumes "i \<in> set (ids s)" and "i \<noteq> [] \<or> toast s = None"
  shows "collection (clickUndo (deleteCurrentTask (openTaskModal (Some i) s))) = collection s \<and>
         tasks (clickUndo (deleteCurrentTask (openTaskModal (Some i) s))) = tasks s"
proof (cases "i = []")
  case True
  with assms(2) have "toast s = None" by simp
  with True show ?thesis by (simp add: store_eval)
next
  case False
  from assms(1) have "\<not> (\<forall>r\<in>set (tasks s). \<not> task_id (heap s r) = i)"
    by (auto simp: ids_def collection_def)
  then obtain idx where idx: "findIndex (\<lambda>r. task_id (heap s r) = i) (tasks s) = Some idx"
    using findIndex_None [of "\<lambda>r. task_id (heap s r) = i" "tasks s"] by auto
  from findIndex_Some [OF idx] have lt: "idx < length (tasks s)" by simp
  define ys where "ys = take idx (tasks s) @ drop (Suc idx) (tasks s)"
  let ?s' = "clickUndo (deleteCurrentTask (openTaskModal (Some i) s))"
  from False idx have "tasks ?s' = take idx ys @ tasks s ! idx # drop idx ys \<and> heap ?s' = heap s"
    unfolding ys_def [symmetric] by (simp add: store_eval ys_def [symmetric])
  with splice_back [OF lt] show ?thesis by (simp add: collection_def ys_def)
qed

lemma findTask_Some_iff: "i \<in> set (ids s) \<longleftrightarrow> (\<exists>r. findTask s i = Some r)"
proof -
  have "(\<exists>r. findTask s i = Some r) \<longleftrightarrow> findTask s i \<noteq> None" by auto
  also have "\<dots> \<longleftrightarrow> (\<exists>r\<in>set (tasks s). task_id (heap s r) = i)"
    by (auto simp: findTask_def find_None_iff)
  also have "\<dots> \<longleftrightarrow> i \<in> set (ids s)" by (auto simp: ids_def collection_def)
  finally show ?thesis by simp
qed

lemma findTask_Some: "findTask s i = Some r \<Longrightarrow> r \<in> set (tasks s) \<and> task_id (heap s r) = i"
  by (auto simp: findTask_def find_Some_iff)

lemma findTask_same_ids:
  assumes "\<And>r. task_id (heap s' r) = task_id (heap s r)" and "tasks s' = tasks s"
  shows "findTask s' i = findTask s i"
  using assms by (simp add: findTask_def)

text \<open>
  C5. For an id \<open>i\<close> of the collection, whatever the status of its task was, after
  \<open>moveTask i "done"\<close> the task has status \<open>done\<close>, and after a click on Undo while the
  toast is still shown it has status \<open>doing\<close>.
\<close>

theorem move_done_then_undo_is_doing:
  assumes "i \<in> set (ids s)"
  shows "map_option status (taskWithId (moveTask i (js ''done'') s) i) = Some (Some (js ''done'')) \<and>
         map_option status (taskWithId (clickUndo (moveTask i (js ''done'') s)) i) =
           Some (Some (js ''doing''))"
proof -
  from assms obtain r where r: "findTask s i = Some r" using findTask_Some_iff by blast
  let ?m = "moveTask i (js ''done'') s"
  from r have hm: "heap ?m = (heap s)(r := (heap s r)\<lparr>status := Some (js ''done'')\<rparr>)"
    and tm: "tasks ?m = tasks s" and um: "toast ?m = Some (UndoMove r)"
    by (simp_all add: moveTask_def setStatus_def showToast_def persistTasks_def Let_def)
  from hm tm have fm: "findTask ?m i = findTask s i" by (intro findTask_same_ids) simp_all
  from um hm have hu: "heap (clickUndo ?m) = (heap s)(r := (heap s r)\<lparr>status := Some (js ''doing'')\<rparr>)"
    by (simp add: clickUndo_def hideToast_def setStatus_def persistTasks_def)
  from um tm have tu: "tasks (clickUndo ?m) = tasks s"
    by (simp add: clickUndo_def hideToast_def setStatus_def persistTasks_def)
  from hu tu have fu: "findTask (clickUndo ?m) i = findTask s i"
    by (intro findTask_same_ids) simp_all
  from r fm hm fu hu show ?thesis by (simp add: taskWithId_def)
qed

lemma decodeTask_stringifyTask: "decodeTask (stringifyTask t) = Some t"
  by (cases t; cases "due t"; cases "priority t"; cases "status t"; cases "owner t")
     (simp_all add: stringifyTask_def optional_def stringProp_def stringOrMissing_def js_def)

lemma decodeAll_stringify: "decodeAll (map stringifyTask ts) = Some ts"
  by (induction ts) (simp_all add: decodeTask_stringifyTask)

lemma stringifyTask_optional:
  "\<exists>ps. stringifyTask t = JObj ps \<and>
      map_of ps (js ''due'') = map_option JStr (due t) \<and>
      map_of ps (js ''priority'') = map_option JStr (priority t) \<and>
      map_of ps (js ''owner'') = map_option JStr (owner t)"
  by (cases "due t"; cases "priority t"; cases "status t"; cases "owner t")
     (simp_all add: stringifyTask_def optional_def js_def)

text \<open>
  C8. When the write succeeds, loading what \<open>persistTasks\<close> has written gives back the
  collection field for field. An optional field that is absent is left out of the written
  object, and one that is present is written as its string, so that an absent field is
  read back as absent and never as a string.
\<close>

theorem persisted_tasks_round_trip:
  "(\<not> storageFails s \<longrightarrow>
      decodeTasks (loadTasks (stored (persistTasks s))) = Some (collection s)) \<and>
   (\<exists>ps. stringifyTask t = JObj ps \<and>
      map_of ps (js ''due'') = map_option JStr (due t) \<and>
      map_of ps (js ''priority'') = map_option JStr (priority t) \<and>
      map_of ps (js ''owner'') = map_option JStr (owner t))"
  using stringifyTask_optional [of t]
  by (simp add: persistTasks_def persist_def loadTasks_def stringifyTasks_def decodeAll_stringify)

text \<open>
  C9, as amended. When the key is missing, or holds the empty string or a string that
  \<open>JSON.parse\<close> rejects, loading yields the empty array and no exception leaves
  \<open>loadTasks\<close>. A string that \<open>JSON.parse\<close> accepts is taken as the collection
  whatever value it denotes.
\<close>

theorem loadTasks_fail_safe:
  "((\<forall>v. x \<noteq> Some (Document v)) \<longrightarrow> loadTasks x = JArr []) \<and>
   loadTasks (Some (Document v)) = v"
proof -
  have "loadTasks x = JArr []" if "\<forall>v. x \<noteq> Some (Document v)"
  proof (cases x)
    case None
    then show ?thesis by (simp add: loadTasks_def)
  next
    case (Some y)
    with that show ?thesis by (cases y) (simp_all add: loadTasks_def)
  qed
  then show ?thesis by (simp add: loadTasks_def)
qed

theorem loadTasks_fail_safe_witness:
  "loadTasks (Some Malformed) = JArr [] \<and> loadTasks (Some EmptyString) = JArr [] \<and>
   loadTasks None = JArr []"
  using loadTasks_fail_safe [of "Some Malformed"] loadTasks_fail_safe [of "Some EmptyString"]
    loadTasks_fail_safe [of None]
  by simp

text \<open>
  C9 as stated fails: the stored string \<open>{}\<close> is not a task array, and loading makes
  that object the collection instead of the empty array.
\<close>

theorem loadTasks_not_an_array_counterexample:
  "decodeTasks (JObj []) = None \<and> loadTasks (Some (Document (JObj []))) = JObj [] \<and>
   loadTasks (Some (Document (JObj []))) \<noteq> JArr []"
  by (simp add: loadTasks_def)

lemma uniqueIds_cong:
  assumes "\<And>r. task_id (heap s' r) = task_id (heap s r)" and "tasks s' = tasks s"
    and "nextRef s' = nextRef s" and "toast s' = toast s"
  shows "uniqueIds s' = uniqueIds s"
proof -
  from assms(1,2) have "ids s' = ids s" by (simp add: ids_def collection_def)
  with assms show ?thesis by (simp add: uniqueIds_def split: option.splits undoFn.splits)
qed

lemma uniqueIds_persistTasks [simp]: "uniqueIds (persistTasks s) = uniqueIds s"
  by (rule uniqueIds_cong) (simp_all add: persistTasks_def)

lemma uniqueIds_currentEditId [simp]: "uniqueIds (s\<lparr>currentEditId := v\<rparr>) = uniqueIds s"
  by (rule uniqueIds_cong) simp_all

lemma uniqueIds_setStatus [simp]: "uniqueIds (setStatus r v s) = uniqueIds s"
  by (rule uniqueIds_cong) (simp_all add: setStatus_def)

lemma uniqueIds_hideToast: "uniqueIds s \<Longrightarrow> uniqueIds (hideToast s)"
  by (simp add: uniqueIds_def hideToast_def ids_def collection_def)

lemma uniqueIds_toast_move: "uniqueIds s \<Longrightarrow> uniqueIds (showToast (UndoMove r) s)"
  by (simp add: uniqueIds_def showToast_def ids_def collection_def)

lemma ids_addTask: "list_all (\<lambda>r. r < nextRef s) (tasks s) \<Longrightarrow>
  ids (addTask now now' data s) = ids s @ [numberToString now]"
  by (auto simp: addTask_def ids_def collection_def persistTasks_def Let_def list_all_iff)

lemma uniqueIds_addTask:
  assumes "uniqueIds s" and "freshId now s"
  shows "uniqueIds (addTask now now' data s)"
proof -
  let ?s' = "addTask now now' data s"
  from assms(1) have d: "distinct (ids s)" and b: "list_all (\<lambda>r. r < nextRef s) (tasks s)"
    by (simp_all add: uniqueIds_def)
  have i: "ids ?s' = ids s @ [numberToString now]" using b by (rule ids_addTask)
  have n: "nextRef ?s' = Suc (nextRef s)" and t: "tasks ?s' = tasks s @ [nextRef s]"
    and u: "toast ?s' = toast s"
    and h: "\<And>r. r < nextRef s \<Longrightarrow> heap ?s' r = heap s r"
    by (simp_all add: addTask_def persistTasks_def Let_def)
  from d assms(2) have "distinct (ids ?s')" by (simp add: i freshId_def)
  moreover from b have "list_all (\<lambda>r. r < nextRef ?s') (tasks ?s')"
    by (auto simp: n t list_all_iff)
  moreover have "case toast ?s' of
         Some (UndoDelete idx r) \<Rightarrow> r < nextRef ?s' \<and> task_id (heap ?s' r) \<notin> set (ids ?s')
       | _ \<Rightarrow> True"
    using assms by (auto simp: uniqueIds_def freshId_def u n i h split: option.splits undoFn.splits)
  ultimately show ?thesis by (simp add: uniqueIds_def)
qed

lemma uniqueIds_moveTask: "uniqueIds s \<Longrightarrow> uniqueIds (moveTask i v s)"
  by (auto simp: moveTask_def Let_def uniqueIds_toast_move split: option.splits)

lemma uniqueIds_dropTask: "uniqueIds s \<Longrightarrow> uniqueIds (dropTask i v s)"
  by (auto simp: dropTask_def uniqueIds_moveTask split: option.splits)

lemma uniqueIds_edit:
  "uniqueIds (s\<lparr>heap := (heap s)(r := (heap s r)\<lparr>title := a, due := b, priority := c,
                                              status := d, owner := e\<rparr>)\<rparr>) = uniqueIds s"
  by (rule uniqueIds_cong) simp_all

lemma uniqueIds_closeTaskModal [simp]: "uniqueIds (closeTaskModal s) = uniqueIds s"
  by (simp add: closeTaskModal_def)

lemma uniqueIds_saveTask:
  assumes "uniqueIds s" and "\<not> truthy (currentEditId s) \<Longrightarrow> freshId now s"
  shows "uniqueIds (saveTask now now' f s)"
  using assms
  by (auto simp: saveTask_def Let_def uniqueIds_edit uniqueIds_addTask split: option.splits)

lemma distinct_take_drop:
  assumes "distinct xs" and "i < length xs"
  shows "distinct (take i xs @ drop (Suc i) xs) \<and> xs ! i \<notin> set (take i xs @ drop (Suc i) xs)"
proof -
  from assms(2) have "xs = take i xs @ xs ! i # drop (Suc i) xs" by (rule id_take_nth_drop)
  with assms(1) have "distinct (take i xs @ xs ! i # drop (Suc i) xs)" by simp
  then show ?thesis by auto
qed

lemma uniqueIds_deleteCurrentTask:
  assumes "uniqueIds s"
  shows "uniqueIds (deleteCurrentTask s)"
proof (cases "truthy (currentEditId s)")
  case False
  with assms show ?thesis by (simp add: deleteCurrentTask_def)
next
  case True
  show ?thesis
  proof (cases "findIndex (\<lambda>r. task_id (heap s r) = the (currentEditId s)) (tasks s)")
    case None
    with True assms show ?thesis by (simp add: deleteCurrentTask_def)
  next
    case (Some idx)
    from findIndex_Some [OF Some] have lt: "idx < length (tasks s)" by simp
    let ?s' = "deleteCurrentTask s"
    from True Some have t: "tasks ?s' = take idx (tasks s) @ drop (Suc idx) (tasks s)"
      and h: "heap ?s' = heap s" and n: "nextRef ?s' = nextRef s"
      and u: "toast ?s' = Some (UndoDelete idx (tasks s ! idx))"
      by (simp_all add: deleteCurrentTask_def Let_def showToast_def persistTasks_def
          closeTaskModal_def)
    from assms have d: "distinct (ids s)" and b: "list_all (\<lambda>r. r < nextRef s) (tasks s)"
      by (simp_all add: uniqueIds_def)
    have i: "ids ?s' = take idx (ids s) @ drop (Suc idx) (ids s)"
      by (simp add: ids_def collection_def t h take_map drop_map)
    have x: "task_id (heap s (tasks s ! idx)) = ids s ! idx"
      using lt by (simp add: ids_def collection_def)
    from lt have lt': "idx < length (ids s)" by (simp add: ids_def collection_def)
    from distinct_take_drop [OF d lt'] have "distinct (ids ?s')"
      and "task_id (heap ?s' (tasks s ! idx)) \<notin> set (ids ?s')" by (simp_all add: i h x)
    moreover from b lt have "tasks s ! idx < nextRef ?s'" by (simp add: n list_all_length)
    moreover from b have "list_all (\<lambda>r. r < nextRef ?s') (tasks ?s')"
      by (auto simp: n t list_all_iff dest: in_set_takeD in_set_dropD)
    ultimately show ?thesis by (simp add: uniqueIds_def u)
  qed
qed

lemma distinct_insert_at:
  assumes "distinct xs" and "x \<notin> set xs"
  shows "distinct (take i xs @ x # drop i xs)"
proof -
  have "distinct (take i xs @ drop i xs)" using assms(1) by simp
  then have "distinct (take i xs) \<and> distinct (drop i xs) \<and> set (take i xs) \<inter> set (drop i xs) = {}"
    by (simp only: distinct_append)
  moreover from assms(2) have "x \<notin> set (take i xs)" and "x \<notin> set (drop i xs)"
    by (auto dest: in_set_takeD in_set_dropD)
  ultimately show ?thesis by auto
qed

lemma uniqueIds_clickUndo:
  assumes "uniqueIds s"
  shows "uniqueIds (clickUndo s)"
proof (cases "toast s")
  case None
  with assms show ?thesis by (simp add: clickUndo_def)
next
  case (Some fn)
  show ?thesis
  proof (cases fn)
    case (UndoMove r)
    with Some assms show ?thesis by (simp add: clickUndo_def uniqueIds_hideToast)
  next
    case (UndoDelete idx r)
    let ?s' = "clickUndo s"
    from Some UndoDelete have t: "tasks ?s' = take idx (tasks s) @ r # drop idx (tasks s)"
      and h: "heap ?s' = heap s" and n: "nextRef ?s' = nextRef s" and u: "toast ?s' = None"
      by (simp_all add: clickUndo_def hideToast_def persistTasks_def)
    from assms Some UndoDelete have d: "distinct (ids s)"
      and b: "list_all (\<lambda>r. r < nextRef s) (tasks s)" and r: "r < nextRef s"
      and x: "task_id (heap s r) \<notin> set (ids s)"
      by (simp_all add: uniqueIds_def)
    have i: "ids ?s' = take idx (ids s) @ task_id (heap s r) # drop idx (ids s)"
      by (simp add: ids_def collection_def t h take_map drop_map)
    from distinct_insert_at [OF d x] have "distinct (ids ?s')" by (simp add: i)
    moreover from b r have "list_all (\<lambda>r. r < nextRef ?s') (tasks ?s')"
      by (auto simp: n t list_all_iff dest: in_set_takeD in_set_dropD)
    ultimately show ?thesis by (simp add: uniqueIds_def u)
  qed
qed

lemma uniqueIds_emptyStore: "uniqueIds emptyStore"
  by (simp add: uniqueIds_def emptyStore_def ids_def collection_def)

text \<open>
  C1, as amended. \<open>addTask\<close> gives the new task the decimal string of the clock reading as
  its id and checks nothing. Uniqueness of ids holds in the empty store, and every event
  preserves it provided that an event that creates a task does so at a clock reading whose
  decimal string is the id of no task of the collection and of no task waiting in the toast;
  all other events preserve it without condition. The new id is appended after the ids that
  were there.
\<close>

theorem uniqueIds_step:
  "uniqueIds emptyStore \<and>
   (uniqueIds s \<and> (case creates e s of None \<Rightarrow> True | Some now \<Rightarrow> freshId now s) \<longrightarrow>
      uniqueIds (step e s)) \<and>
   (uniqueIds s \<longrightarrow> ids (addTask now now' data s) = ids s @ [numberToString now])"
proof (intro conjI impI)
  show "uniqueIds emptyStore" by (rule uniqueIds_emptyStore)
next
  assume a: "uniqueIds s \<and> (case creates e s of None \<Rightarrow> True | Some now \<Rightarrow> freshId now s)"
  then have u: "uniqueIds s" by simp
  show "uniqueIds (step e s)"
  proof (cases e)
    case (AddTask now now' data)
    with a show ?thesis by (simp add: uniqueIds_addTask)
  next
    case (SaveTask now now' f)
    with a show ?thesis by (auto intro!: uniqueIds_saveTask split: if_splits)
  next
    case (MoveTask i v)
    with u show ?thesis by (simp add: uniqueIds_moveTask)
  next
    case (DropTask i v)
    with u show ?thesis by (simp add: uniqueIds_dropTask)
  next
    case (OpenTaskModal i)
    with u show ?thesis by (simp add: openTaskModal_def)
  next
    case CloseTaskModal
    with u show ?thesis by simp
  next
    case DeleteCurrentTask
    with u show ?thesis by (simp add: uniqueIds_deleteCurrentTask)
  next
    case ClickUndo
    with u show ?thesis by (simp add: uniqueIds_clickUndo)
  next
    case ToastTimeout
    with u show ?thesis by (simp add: toastTimeout_def uniqueIds_hideToast)
  next
    case (HandleQuickAdd input)
    with u show ?thesis by (simp add: handleQuickAdd_def)
  qed
next
  assume "uniqueIds s"
  then have "list_all (\<lambda>r. r < nextRef s) (tasks s)" by (simp add: uniqueIds_def)
  then show "ids (addTask now now' data s) = ids s @ [numberToString now]" by (rule ids_addTask)
qed

lemmas clock_eval = numberToString_def digitsOf.simps

lemma ids_sampleStore:
  "ids sampleStore = [js ''1700000000000'', js ''1700000000001'', js ''1700000000002'']"
  by (simp add: sampleStore_def store_eval clock_eval js_def)

text \<open>
  C1 as stated fails: two tasks created at the same clock reading get the same id.
\<close>

theorem create_same_clock_counterexample:
  "uniqueIds (step (AddTask 1700000000000 1700000000000 sampleData) emptyStore) \<and>
   ids (step (AddTask 1700000000000 1700000000000 sampleData)
          (step (AddTask 1700000000000 1700000000000 sampleData) emptyStore)) =
     [js ''1700000000000'', js ''1700000000000''] \<and>
   \<not> uniqueIds (step (AddTask 1700000000000 1700000000000 sampleData)
                  (step (AddTask 1700000000000 1700000000000 sampleData) emptyStore))"
  by (simp add: uniqueIds_def store_eval clock_eval js_def)

theorem uniqueIds_step_witness:
  "freshId 1700000000001 (step (AddTask 1700000000000 1700000000000 sampleData) emptyStore) \<and>
   uniqueIds (step (AddTask 1700000000001 1700000000001 sampleData)
                (step (AddTask 1700000000000 1700000000000 sampleData) emptyStore)) \<and>
   ids (addTask 1700000000001 1700000000001 sampleData
          (step (AddTask 1700000000000 1700000000000 sampleData) emptyStore)) =
     [js ''1700000000000'', js ''1700000000001'']"
proof -
  let ?s = "step (AddTask 1700000000000 1700000000000 sampleData) emptyStore"
  have f0: "freshId 1700000000000 emptyStore"
    by (simp add: freshId_def store_eval)
  have u: "uniqueIds ?s"
    using uniqueIds_step [of emptyStore "AddTask 1700000000000 1700000000000 sampleData"] f0
    by simp
  have i: "ids ?s = [js ''1700000000000'']"
    by (simp add: store_eval clock_eval js_def)
  have f: "freshId 1700000000001 ?s"
    unfolding freshId_def i by (simp add: store_eval clock_eval js_def)
  from u f i show ?thesis
    using uniqueIds_step [of ?s "AddTask 1700000000001 1700000000001 sampleData"
        1700000000001 1700000000001 sampleData]
    by (simp add: clock_eval js_def)
qed

theorem delete_then_undo_restores_witness:
  "js ''1700000000001'' \<in> set (ids sampleStore) \<and>
   ids (deleteCurrentTask (openTaskModal (Some (js ''1700000000001'')) sampleStore)) =
     [js ''1700000000000'', js ''1700000000002''] \<and>
   collection (clickUndo (deleteCurrentTask (openTaskModal (Some (js ''1700000000001'')) sampleStore))) =
     collection sampleStore"
proof -
  have m: "js ''1700000000001'' \<in> set (ids sampleStore)"
    by (simp add: ids_sampleStore)
  have n: "js ''1700000000001'' \<noteq> [] \<or> toast sampleStore = None"
    by (simp add: js_def)
  have d: "ids (deleteCurrentTask (openTaskModal (Some (js ''1700000000001'')) sampleStore)) =
     [js ''1700000000000'', js ''1700000000002'']"
    by (simp add: sampleStore_def store_eval clock_eval js_def)
  from m d show ?thesis
    using delete_then_undo_restores [OF m n] by simp
qed

theorem move_done_then_undo_is_doing_witness:
  "js ''1700000000001'' \<in> set (ids sampleStore) \<and>
   map_option status (taskWithId sampleStore (js ''1700000000001'')) = Some (Some (js ''todo'')) \<and>
   map_option status
     (taskWithId (clickUndo (moveTask (js ''1700000000001'') (js ''done'') sampleStore))
        (js ''1700000000001'')) = Some (Some (js ''doing''))"
proof -
  have m: "js ''1700000000001'' \<in> set (ids sampleStore)"
    by (simp add: ids_sampleStore)
  have t: "map_option status (taskWithId sampleStore (js ''1700000000001'')) = Some (Some (js ''todo''))"
    by (simp add: taskWithId_def sampleStore_def sampleData_def store_eval clock_eval js_def)
  from m t show ?thesis
    using move_done_then_undo_is_doing [OF m] by simp
qed

section \<open>Facts about the statistics\<close>

lemma proto_in_keys: "js ''__proto__'' \<in> set objectPrototypeKeys"
  by (simp add: objectPrototypeKeys_def)

lemma countUp_other: "key \<noteq> k \<Longrightarrow> countUp counts key k = counts k"
  by (simp add: countUp_def Let_def)

lemma countUp_same:
  assumes "k \<notin> set objectPrototypeKeys"
  shows "countUp counts k k =
           Some (case counts k of None \<Rightarrow> Number 1 | Some (Number n) \<Rightarrow> Number (n + 1)
                 | Some NotANumber \<Rightarrow> NotANumber)"
proof -
  from assms proto_in_keys have "k \<noteq> js ''__proto__''" by auto
  with assms show ?thesis by (auto simp: countUp_def Let_def split: option.splits counter.splits)
qed

lemma fold_countUp:
  assumes "\<forall>t\<in>set ts. statusKey t \<notin> set objectPrototypeKeys" and "counts k = bucket m"
  shows "fold (\<lambda>t counts. countUp counts (statusKey t)) ts counts k =
           bucket (m + length (filter (\<lambda>t. statusKey t = k) ts))"
  using assms
proof (induction ts arbitrary: counts m)
  case Nil
  then show ?case by simp
next
  case (Cons t ts)
  show ?case
  proof (cases "statusKey t = k")
    case True
    with Cons.prems(1) have "k \<notin> set objectPrototypeKeys" by auto
    from countUp_same [OF this, of counts] Cons.prems(2)
    have "countUp counts (statusKey t) k = bucket (Suc m)"
      by (auto simp: bucket_def True split: if_splits)
    moreover from Cons.prems(1) have "\<forall>t\<in>set ts. statusKey t \<notin> set objectPrototypeKeys" by simp
    ultimately show ?thesis using Cons.IH [of "countUp counts (statusKey t)" "Suc m"] True by simp
  next
    case False
    then have "countUp counts (statusKey t) k = bucket m"
      using Cons.prems(2) by (simp add: countUp_other)
    moreover from Cons.prems(1) have "\<forall>t\<in>set ts. statusKey t \<notin> set objectPrototypeKeys" by simp
    ultimately show ?thesis using Cons.IH [of "countUp counts (statusKey t)" m] False by simp
  qed
qed

text \<open>
  C2, as amended. A task whose status is missing or the empty string is counted under
  \<open>unknown\<close>; a task with any other status, inside or outside todo, doing and done, is
  counted under that status itself. Provided that no status is the name of a property of
  \<open>Object.prototype\<close>, the counter holds for every key the number of tasks that have that
  key, and no entry for a key that no task has: every task is counted once, under one key.
\<close>

theorem statusCounts_by_status_value:
  "((\<forall>t\<in>set ts. statusKey t \<notin> set objectPrototypeKeys) \<longrightarrow>
      statusCounts ts k = bucket (length (filter (\<lambda>t. statusKey t = k) ts))) \<and>
   (status t = None \<or> status t = Some [] \<longrightarrow> statusKey t = js ''unknown'') \<and>
   (status t = Some v \<and> v \<noteq> [] \<longrightarrow> statusKey t = v)"
proof (intro conjI impI)
  assume "\<forall>t\<in>set ts. statusKey t \<notin> set objectPrototypeKeys"
  from fold_countUp [OF this, of Map.empty k 0]
  show "statusCounts ts k = bucket (length (filter (\<lambda>t. statusKey t = k) ts))"
    by (simp add: statusCounts_def bucket_def)
next
  assume "status t = None \<or> status t = Some []"
  then show "statusKey t = js ''unknown''" by (auto simp: statusKey_def truthy_def)
next
  assume "status t = Some v \<and> v \<noteq> []"
  then show "statusKey t = v" by (simp add: statusKey_def truthy_def)
qed

lemmas stats_eval = statusCounts_def countUp_def statusKey_def truthy_def objectPrototypeKeys_def
  sampleTask_def js_def Let_def bucket_def

text \<open>
  C2 as stated fails: a task with the status \<open>archived\<close> is counted under \<open>archived\<close>,
  and nothing is counted under \<open>unknown\<close>.
\<close>

theorem statusCounts_off_enum_counterexample:
  "statusCounts [sampleTask ''1'' (Some (js ''archived''))] (js ''unknown'') = None \<and>
   statusCounts [sampleTask ''1'' (Some (js ''archived''))] (js ''archived'') = Some (Number 1)"
  by (simp add: stats_eval)

theorem statusCounts_by_status_value_witness:
  "statusCounts [sampleTask ''1'' (Some (js ''todo'')), sampleTask ''2'' None,
                 sampleTask ''3'' (Some (js ''archived'')), sampleTask ''4'' (Some [])]
     (js ''unknown'') = Some (Number 2) \<and>
   statusKey (sampleTask ''2'' None) = js ''unknown'' \<and>
   statusKey (sampleTask ''3'' (Some (js ''archived''))) = js ''archived''"
proof -
  let ?ts = "[sampleTask ''1'' (Some (js ''todo'')), sampleTask ''2'' None,
              sampleTask ''3'' (Some (js ''archived'')), sampleTask ''4'' (Some [])]"
  have h: "\<forall>t\<in>set ?ts. statusKey t \<notin> set objectPrototypeKeys"
    by (simp add: statusKey_def truthy_def objectPrototypeKeys_def sampleTask_def js_def)
  have n: "status (sampleTask ''2'' None) = None \<or> status (sampleTask ''2'' None) = Some []"
    by (simp add: sampleTask_def)
  have a: "status (sampleTask ''3'' (Some (js ''archived''))) = Some (js ''archived'') \<and>
           js ''archived'' \<noteq> []"
    by (simp add: sampleTask_def js_def)
  from h n a show ?thesis
    using statusCounts_by_status_value [of ?ts "js ''unknown''" "sampleTask ''2'' None"]
      statusCounts_by_status_value [of ?ts "js ''unknown''"
        "sampleTask ''3'' (Some (js ''archived''))" "js ''archived''"]
    by (simp add: bucket_def statusKey_def truthy_def sampleTask_def js_def)
qed

text \<open>The slip left out of the statement: a status named like a property of Object.prototype.\<close>

lemma statusCounts_prototype_names:
  "statusCounts [sampleTask ''1'' (Some (js ''toString''))] (js ''toString'') = Some NotANumber \<and>
   statusCounts [sampleTask ''1'' (Some (js ''__proto__''))] = Map.empty"
  by (simp add: stats_eval)

section \<open>The claims at concrete inputs\<close>

theorem parseInput_due_first_match_witness:
  "firstDueAt (js ''Pay rent @2024-02-30 !'') (js ''Pay rent '') (js ''2024-02-30'') (js '' !'') \<and>
   due (parseInput (js ''Pay rent @2024-02-30 !'')) = Some (js ''2024-02-30'') \<and>
   title (parseInput (js ''Pay rent @2024-02-30 !'')) = js ''Pay rent'' \<and>
   due (parseInput (js ''Buy milk !'')) = None \<and>
   title (parseInput (js ''Buy milk !'')) = js ''Buy milk''"
proof -
  have "firstDueToken (js ''Pay rent @2024-02-30 !'') =
          Some (js ''Pay rent '', AT # js ''2024-02-30'', js '' !'')"
    by (simp add: parser_eval)
  from firstDueToken_firstDueAt [OF this]
  have f: "firstDueAt (js ''Pay rent @2024-02-30 !'') (js ''Pay rent '') (js ''2024-02-30'') (js '' !'')"
    by simp
  have "firstDueToken (js ''Buy milk !'') = None" by (simp add: parser_eval)
  then have n: "\<forall>a d b. js ''Buy milk !'' = a @ AT # d @ b \<longrightarrow> \<not> dueShape d"
    by (simp only: firstDueToken_None_iff)
  have t: "trim (bangsRemoved (js ''Pay rent @2024-02-30 !'') (js ''Pay rent '' @ js '' !'')) =
             js ''Pay rent''"
    by (simp add: bangsRemoved_def parser_eval)
  have t': "trim (bangsRemoved (js ''Buy milk !'') (js ''Buy milk !'')) = js ''Buy milk''"
    by (simp add: bangsRemoved_def parser_eval)
  from f n t t' show ?thesis
    using parseInput_due_first_match [of "js ''Pay rent @2024-02-30 !''" "js ''Pay rent ''"
        "js ''2024-02-30''" "js '' !''"]
      parseInput_due_first_match [of "js ''Buy milk !''"]
    by simp
qed

theorem parseInput_priority_first_run_witness:
  "priority (parseInput (js ''Call !! Bob !!! @2024-03-05'')) = Some (js ''medium'') \<and>
   title (parseInput (js ''Call !! Bob !!! @2024-03-05'')) = js ''Call  Bob !!!'' \<and>
   priority (parseInput (js ''Buy milk !'')) = Some (js ''high'') \<and>
   title (parseInput (js ''Buy milk !'')) = js ''Buy milk'' \<and>
   due (parseInput (js ''Buy milk !'')) = None \<and>
   priority (parseInput (js ''Ship report'')) = None"
proof -
  have a: "js ''Call !! Bob !!! @2024-03-05'' =
             js ''Call '' @ replicate (Suc (Suc 0)) BANG @ js '' Bob !!! @2024-03-05'' \<and>
           BANG \<notin> set (js ''Call '') \<and> 0 < Suc (Suc 0) \<and>
           (js '' Bob !!! @2024-03-05'' = [] \<or> hd (js '' Bob !!! @2024-03-05'') \<noteq> BANG)"
    by (simp add: js_def)
  have b: "js ''Buy milk !'' = js ''Buy milk '' @ replicate (Suc 0) BANG @ [] \<and>
           BANG \<notin> set (js ''Buy milk '') \<and> 0 < Suc 0 \<and> ([] = [] \<or> hd [] \<noteq> BANG)"
    by (simp add: js_def)
  have c: "BANG \<notin> set (js ''Ship report'')" by (simp add: js_def)
  have ta: "trim (if matchDue (js ''Call '') = None
                  then js ''Call '' @ dueRemoved (js '' Bob !!! @2024-03-05'')
                  else dueRemoved (js ''Call '') @ js '' Bob !!! @2024-03-05'') = js ''Call  Bob !!!''"
    by (simp add: dueRemoved_def parser_eval)
  have tb: "trim (if matchDue (js ''Buy milk '') = None then js ''Buy milk '' @ dueRemoved []
                  else dueRemoved (js ''Buy milk '') @ []) = js ''Buy milk''"
    by (simp add: dueRemoved_def parser_eval)
  have d: "due (parseInput (js ''Buy milk !'')) = None" by (simp add: parser_eval)
  from a b c ta tb d show ?thesis
    using parseInput_priority_first_run [of "js ''Call !! Bob !!! @2024-03-05''" "js ''Call ''"
        "Suc (Suc 0)" "js '' Bob !!! @2024-03-05''"]
      parseInput_priority_first_run [of "js ''Buy milk !''" "js ''Buy milk ''" "Suc 0" "[]"]
      parseInput_priority_first_run [of "js ''Ship report''"]
    by (simp add: js_def)
qed

theorem persisted_tasks_round_trip_witness:
  "\<not> storageFails sampleStore \<and>
   decodeTasks (loadTasks (stored (persistTasks sampleStore))) = Some (collection sampleStore) \<and>
   due (sampleTask ''1'' None) = None \<and>
   (\<exists>ps. stringifyTask (sampleTask ''1'' None) = JObj ps \<and> map_of ps (js ''due'') = None \<and>
      map_of ps (js ''priority'') = None \<and> map_of ps (js ''owner'') = None)"
proof -
  have w: "\<not> storageFails sampleStore"
    by (simp add: sampleStore_def store_eval)
  from persisted_tasks_round_trip [of sampleStore "sampleTask ''1'' None"] w
  have "decodeTasks (loadTasks (stored (persistTasks sampleStore))) = Some (collection sampleStore)"
    and "\<exists>ps. stringifyTask (sampleTask ''1'' None) = JObj ps \<and>
           map_of ps (js ''due'') = map_option JStr (due (sampleTask ''1'' None)) \<and>
           map_of ps (js ''priority'') = map_option JStr (priority (sampleTask ''1'' None)) \<and>
           map_of ps (js ''owner'') = map_option JStr (owner (sampleTask ''1'' None))"
    by blast+
  with w show ?thesis by (simp add: sampleTask_def)
qed

section \<open>The two parsers agree\<close>

text \<open>
  The application script carries a copy of the parser of \<open>board.js\<close>, so every fact
  above about \<open>parseInput\<close> holds for \<open>parseInput_app\<close> as well.
\<close>

lemma parseInput_app_parseInput: "parseInput_app input = parseInput input"
  by (simp add: parseInput_def parseInput_app_def)

text \<open>
  C10. The parser of \<open>board.js\<close> and the parser of the application script return
  the same title, due date and priority on every input string.
\<close>

theorem parseInput_implementations_agree:
  "title (parseInput input) = title (parseInput_app input) \<and>
   due (parseInput input) = due (parseInput_app input) \<and>
   priority (parseInput input) = priority (parseInput_app input)"
  by (simp add: parseInput_def parseInput_app_def)

end
